theory Spec2Isabelle
  imports Main "HOL-Library.Multiset"
begin

section \<open>Data model of go_flow.go\<close>

text \<open>The values of Go's \<open>error\<close> interface that occur: the two error structs of the
  engine, and a caller's \<open>errors.New\<close>.\<close>

datatype flow_error = ConditionNotFoundError | PanicHappened string | ErrorString string

text \<open>
  Modelled from the spec: the declarations of the payload types \<open>DataTest\<close> and
  \<open>ResultTest\<close>, which are not among the source files. The spec's result record is an
  optional failure marker, an integer status code with zero for success, a status
  message and a payload of the caller's. The fields carry the names the source's
  composite literals and task functions give them: \<open>Err\<close>, \<open>StatusCode\<close>,
  \<open>StatusMsg\<close>, \<open>AgePlusOne\<close> of a result, \<open>Name\<close> and \<open>Age\<close> of the context. The
  engine itself only inspects \<open>Err\<close> and \<open>StatusCode\<close>, and only compares the latter
  with zero, so its width plays no part.
\<close>

record DataTest =
  Name :: string
  Age :: int

record ResultTest =
  Err :: "flow_error option"
  StatusCode :: int
  StatusMsg :: string
  AgePlusOne :: int

datatype NodeType =
  NormalNodeType | IfNodeType | ElseNodeType | ForNodeType | ParallelNodeType | ElseIfNodeType

text \<open>
  The closures receive a pointer to the one shared \<open>DataTest\<close>, so each of them is a
  transformer of the context that also yields its Go return value. A \<open>*ResultTest\<close>
  return is an option: \<open>None\<close> is \<open>nil\<close>. Results are values: once returned they are
  not mutated through the pointer. A closure returns; one that panics is outside this
  model.
\<close>

type_synonym ICallable = "DataTest \<Rightarrow> DataTest \<times> ResultTest option"
type_synonym IBoolFunc = "DataTest \<Rightarrow> DataTest \<times> bool"
type_synonym INodeBeginLogger = "string \<Rightarrow> DataTest \<Rightarrow> DataTest"
type_synonym INodeEndLogger = "string \<Rightarrow> DataTest \<Rightarrow> ResultTest \<Rightarrow> DataTest"
type_synonym IOnSuccessFunc = "DataTest \<Rightarrow> ResultTest \<Rightarrow> DataTest"
type_synonym IOnFailFunc = "DataTest \<Rightarrow> ResultTest \<Rightarrow> DataTest"

text \<open>
  Nodes live in the engine's node list and point at each other through \<open>Next\<close>. The
  list is the store: the address of a node is its index, and \<open>Next\<close> holds an address
  or \<open>None\<close> for \<open>nil\<close>. The fields \<open>Data\<close> and \<open>parentResult\<close> of the Go struct are
  pointers to the engine's context and result cell; they are the fields \<open>data\<close> and
  \<open>result\<close> of the engine state below. All nodes of a flow share the one context:
  \<open>Prepare\<close>, which swaps the engine's context for another object, is left out.
\<close>

record BasicFlowNode =
  Functors :: "ICallable list"
  NodeType :: NodeType
  Next :: "nat option"
  ShouldSkip :: bool
  BeginLogger :: "INodeBeginLogger option"
  EndLogger :: "INodeEndLogger option"
  Note :: string

text \<open>
  One constructor for each node struct; the second argument is \<open>Condition\<close> or
  \<open>Times\<close>. Each struct embeds a \<open>BasicFlowNode\<close> and has \<open>Run\<close> and \<open>ImplTask\<close> of its
  own, so the \<open>Run\<close> and \<open>ImplTask\<close> of \<open>BasicFlowNode\<close> itself are reached only by a
  bare \<open>BasicFlowNode\<close>, which no method of the builder appends.
\<close>

datatype FlowNode =
    IfNode BasicFlowNode "IBoolFunc option"
  | ElseNode BasicFlowNode
  | ElseIfNode BasicFlowNode "IBoolFunc option"
  | NormalNode BasicFlowNode
  | ForNode BasicFlowNode int
  | ParallelNode BasicFlowNode int

fun base :: "FlowNode \<Rightarrow> BasicFlowNode" where
  "base (IfNode b c) = b"
| "base (ElseNode b) = b"
| "base (ElseIfNode b c) = b"
| "base (NormalNode b) = b"
| "base (ForNode b t) = b"
| "base (ParallelNode b t) = b"

fun map_base :: "(BasicFlowNode \<Rightarrow> BasicFlowNode) \<Rightarrow> FlowNode \<Rightarrow> FlowNode" where
  "map_base g (IfNode b c) = IfNode (g b) c"
| "map_base g (ElseNode b) = ElseNode (g b)"
| "map_base g (ElseIfNode b c) = ElseIfNode (g b) c"
| "map_base g (NormalNode b) = NormalNode (g b)"
| "map_base g (ForNode b t) = ForNode (g b) t"
| "map_base g (ParallelNode b t) = ParallelNode (g b) t"

definition GetNext :: "FlowNode \<Rightarrow> nat option" where
  "GetNext n = Next (base n)"

definition SetNext :: "nat option \<Rightarrow> FlowNode \<Rightarrow> FlowNode" where
  "SetNext a n = map_base (\<lambda>b. b\<lparr>Next := a\<rparr>) n"

definition GetNodeType :: "FlowNode \<Rightarrow> NodeType" where
  "GetNodeType n = NodeType (base n)"

definition SetShouldSkip :: "bool \<Rightarrow> FlowNode \<Rightarrow> FlowNode" where
  "SetShouldSkip v n = map_base (\<lambda>b. b\<lparr>ShouldSkip := v\<rparr>) n"

definition SetNote :: "string \<Rightarrow> FlowNode \<Rightarrow> FlowNode" where
  "SetNote v n = map_base (\<lambda>b. b\<lparr>Note := v\<rparr>) n"

definition SetBeginLogger :: "INodeBeginLogger option \<Rightarrow> FlowNode \<Rightarrow> FlowNode" where
  "SetBeginLogger v n = map_base (\<lambda>b. b\<lparr>BeginLogger := v\<rparr>) n"

definition SetEndLogger :: "INodeEndLogger option \<Rightarrow> FlowNode \<Rightarrow> FlowNode" where
  "SetEndLogger v n = map_base (\<lambda>b. b\<lparr>EndLogger := v\<rparr>) n"

text \<open>
  What a run does besides changing the context and the cell is calling closures. The
  state keeps the sequence of these calls: \<open>Task a k\<close> is a call of closure \<open>k\<close> of the
  node at address \<open>a\<close>, \<open>Cond a\<close> a call of its condition.
\<close>

datatype event =
  BeginHook nat | EndHook nat | Task nat nat | Cond nat | OnSuccess | OnFail

record FlowEngine =
  data :: DataTest
  nodes :: "FlowNode list"
  result :: ResultTest
  onFailFunc :: "IOnFailFunc option"
  onSuccessFunc :: "IOnSuccessFunc option"
  trace :: "event list"

definition NewBasicFlowNode :: "NodeType \<Rightarrow> ICallable list \<Rightarrow> BasicFlowNode" where
  "NewBasicFlowNode nodeType functors =
     \<lparr>Functors = functors, NodeType = nodeType, Next = None, ShouldSkip = False,
      BeginLogger = None, EndLogger = None, Note = []\<rparr>"

definition NewIfNode :: "IBoolFunc option \<Rightarrow> ICallable list \<Rightarrow> FlowNode" where
  "NewIfNode condition functors = IfNode (NewBasicFlowNode IfNodeType functors) condition"

definition NewElseNode :: "ICallable list \<Rightarrow> FlowNode" where
  "NewElseNode functors = ElseNode (NewBasicFlowNode ElseNodeType functors)"

definition NewElseIfNode :: "IBoolFunc option \<Rightarrow> ICallable list \<Rightarrow> FlowNode" where
  "NewElseIfNode condition functors =
     ElseIfNode (NewBasicFlowNode ElseIfNodeType functors) condition"

text \<open>\<open>NewNormalNode\<close> returns an \<open>ElseNode\<close> struct whose type tag is
  \<open>NormalNodeType\<close>.\<close>

definition NewNormalNode :: "ICallable list \<Rightarrow> FlowNode" where
  "NewNormalNode functors = ElseNode (NewBasicFlowNode NormalNodeType functors)"

definition NewForNode :: "int \<Rightarrow> ICallable list \<Rightarrow> FlowNode" where
  "NewForNode tms functors = ForNode (NewBasicFlowNode ForNodeType functors) tms"

definition NewParallelNode :: "ICallable list \<Rightarrow> FlowNode" where
  "NewParallelNode functors = ParallelNode (NewBasicFlowNode ParallelNodeType functors) 0"

section \<open>Running a node\<close>

text \<open>The test \<open>Err != nil || StatusCode != 0\<close> on a result, and the same test behind
  a nil check on a returned pointer.\<close>

definition failing :: "ResultTest \<Rightarrow> bool" where
  "failing r = (Err r \<noteq> None \<or> StatusCode r \<noteq> 0)"

definition nil_or_ok :: "ResultTest option \<Rightarrow> bool" where
  "nil_or_ok r = (case r of None \<Rightarrow> True | Some x \<Rightarrow> \<not> failing x)"

text \<open>
  The loop \<open>for _, functor := range Functors\<close> of the sequential nodes, from closure
  index \<open>k\<close> on. It yields \<open>Some r\<close> where the Go loop returns \<open>r\<close> from \<open>ImplTask\<close>, and
  \<open>None\<close> where the loop runs to its end.
\<close>

fun run_functors ::
  "nat \<Rightarrow> nat \<Rightarrow> ICallable list \<Rightarrow> DataTest \<times> event list
     \<Rightarrow> (DataTest \<times> event list) \<times> ResultTest option" where
  "run_functors a k [] w = (w, None)"
| "run_functors a k (f # fs) (d, tr) =
     (case f d of (d', r) \<Rightarrow>
        if \<not> nil_or_ok r then ((d', tr @ [Task a k]), r)
        else run_functors a (Suc k) fs (d', tr @ [Task a k]))"

text \<open>
  The walk at the end of \<open>IfNode.ImplTask\<close> and \<open>ElseIfNode.ImplTask\<close>. A chain of
  \<open>Next\<close> links that runs in a circle through else nodes keeps the Go loop going for
  ever; not returning is the value \<open>None\<close>. An address outside the store has no
  counterpart in Go and is \<open>None\<close> as well.
\<close>

partial_function (option) mark_skipped :: "nat option \<Rightarrow> FlowNode list \<Rightarrow> FlowNode list option"
where
  "mark_skipped current ns =
     (case current of
        None \<Rightarrow> Some ns
      | Some a \<Rightarrow>
          if length ns \<le> a then None
          else if GetNodeType (ns ! a) = ElseIfNodeType \<or> GetNodeType (ns ! a) = ElseNodeType
          then mark_skipped (GetNext (ns ! a)) (ns[a := SetShouldSkip True (ns ! a)])
          else Some ns)"

definition ElseNode_ImplTask :: "nat \<Rightarrow> BasicFlowNode \<Rightarrow> FlowEngine \<Rightarrow> FlowEngine \<times> ResultTest option"
where
  "ElseNode_ImplTask a b s =
     (case run_functors a 0 (Functors b) (data s, trace s) of
        ((d, tr), Some r) \<Rightarrow> (s\<lparr>data := d, trace := tr\<rparr>, Some r)
      | ((d, tr), None) \<Rightarrow> (s\<lparr>data := d, trace := tr\<rparr>, Some (result s)))"

definition NormalNode_ImplTask :: "nat \<Rightarrow> BasicFlowNode \<Rightarrow> FlowEngine \<Rightarrow> FlowEngine \<times> ResultTest option"
where
  "NormalNode_ImplTask a b s =
     (case run_functors a 0 (Functors b) (data s, trace s) of
        ((d, tr), Some r) \<Rightarrow> (s\<lparr>data := d, trace := tr\<rparr>, Some r)
      | ((d, tr), None) \<Rightarrow> (s\<lparr>data := d, trace := tr\<rparr>, Some (result s)))"

text \<open>\<open>IfNode.ImplTask\<close>. The outer option is \<open>None\<close> when the walk does not return.\<close>

definition IfNode_ImplTask ::
  "nat \<Rightarrow> BasicFlowNode \<Rightarrow> IBoolFunc option \<Rightarrow> FlowEngine \<Rightarrow> (FlowEngine \<times> ResultTest option) option"
where
  "IfNode_ImplTask a b condition s =
     (case condition of
        None \<Rightarrow>
          Some (s, Some \<lparr>Err = Some ConditionNotFoundError, StatusCode = 0, StatusMsg = [],
                         AgePlusOne = 0\<rparr>)
      | Some c \<Rightarrow>
          (case c (data s) of (d0, holds) \<Rightarrow>
             (case (if holds then run_functors a 0 (Functors b) (d0, trace s @ [Cond a])
                    else ((d0, trace s @ [Cond a]), None)) of
                ((d, tr), Some r) \<Rightarrow> Some (s\<lparr>data := d, trace := tr\<rparr>, Some r)
              | ((d, tr), None) \<Rightarrow>
                  (case mark_skipped (Next b) (nodes s) of
                     None \<Rightarrow> None
                   | Some ns \<Rightarrow>
                       Some (s\<lparr>data := d, nodes := ns, trace := tr\<rparr>, Some (result s))))))"

definition ElseIfNode_ImplTask ::
  "nat \<Rightarrow> BasicFlowNode \<Rightarrow> IBoolFunc option \<Rightarrow> FlowEngine \<Rightarrow> (FlowEngine \<times> ResultTest option) option"
where
  "ElseIfNode_ImplTask a b condition s =
     (case condition of
        None \<Rightarrow>
          Some (s, Some \<lparr>Err = Some ConditionNotFoundError, StatusCode = 0, StatusMsg = [],
                         AgePlusOne = 0\<rparr>)
      | Some c \<Rightarrow>
          (case c (data s) of (d0, holds) \<Rightarrow>
             (case (if holds then run_functors a 0 (Functors b) (d0, trace s @ [Cond a])
                    else ((d0, trace s @ [Cond a]), None)) of
                ((d, tr), Some r) \<Rightarrow> Some (s\<lparr>data := d, trace := tr\<rparr>, Some r)
              | ((d, tr), None) \<Rightarrow>
                  (case mark_skipped (Next b) (nodes s) of
                     None \<Rightarrow> None
                   | Some ns \<Rightarrow>
                       Some (s\<lparr>data := d, nodes := ns, trace := tr\<rparr>, Some (result s))))))"

text \<open>\<open>ForNode.ImplTask\<close>: the outer loop \<open>for i := 0; i < f.Times; i++\<close> around the
  closure loop.\<close>

function ForNode_loop ::
  "nat \<Rightarrow> int \<Rightarrow> int \<Rightarrow> ICallable list \<Rightarrow> DataTest \<times> event list
     \<Rightarrow> (DataTest \<times> event list) \<times> ResultTest option" where
  "ForNode_loop a i tms fs w =
     (if i < tms
      then (case run_functors a 0 fs w of
              (w', Some r) \<Rightarrow> (w', Some r)
            | (w', None) \<Rightarrow> ForNode_loop a (i + 1) tms fs w')
      else (w, None))"
  by pat_completeness auto
termination
  by (relation "measure (\<lambda>(a, i, tms, fs, w). nat (tms - i))") auto

declare ForNode_loop.simps [simp del]

definition ForNode_ImplTask ::
  "nat \<Rightarrow> BasicFlowNode \<Rightarrow> int \<Rightarrow> FlowEngine \<Rightarrow> FlowEngine \<times> ResultTest option"
where
  "ForNode_ImplTask a b tms s =
     (case ForNode_loop a 0 tms (Functors b) (data s, trace s) of
        ((d, tr), Some r) \<Rightarrow> (s\<lparr>data := d, trace := tr\<rparr>, Some r)
      | ((d, tr), None) \<Rightarrow> (s\<lparr>data := d, trace := tr\<rparr>, Some (result s)))"


fun run_tasks ::
  "nat \<Rightarrow> ICallable list \<Rightarrow> nat list \<Rightarrow> DataTest \<times> event list
     \<Rightarrow> (DataTest \<times> event list) \<times> ResultTest option list" where
  "run_tasks a fs [] w = (w, [])"
| "run_tasks a fs (i # order) (d, tr) =
     (if length fs \<le> i then run_tasks a fs order (d, tr)
      else (case (fs ! i) d of (d', r) \<Rightarrow>
              (case run_tasks a fs order (d', tr @ [Task a i]) of
                 (w, items) \<Rightarrow> (w, r # items))))"

text \<open>The loop \<open>for item := range resultChan\<close> over the results in the order of their
  arrival; \<open>res\<close> is the local variable \<open>result\<close>.\<close>

fun ParallelNode_collect :: "ResultTest option \<Rightarrow> ResultTest option list \<Rightarrow> ResultTest option"
where
  "ParallelNode_collect res [] = res"
| "ParallelNode_collect res (item # items) =
     (if \<not> nil_or_ok res then ParallelNode_collect res items
      else ParallelNode_collect item items)"

definition ParallelNode_ImplTask ::
  "nat list \<Rightarrow> nat \<Rightarrow> BasicFlowNode \<Rightarrow> FlowEngine \<Rightarrow> FlowEngine \<times> ResultTest option"
where
  "ParallelNode_ImplTask order a b s =
     (case run_tasks a (Functors b) order (data s, trace s) of
        ((d, tr), items) \<Rightarrow>
          (s\<lparr>data := d, trace := tr\<rparr>, ParallelNode_collect (Some (result s)) items))"

text \<open>The call \<open>ImplTask()\<close> inside \<open>Run\<close> goes to the method of the node's struct.\<close>

fun ImplTask ::
  "nat list \<Rightarrow> nat \<Rightarrow> FlowNode \<Rightarrow> FlowEngine \<Rightarrow> (FlowEngine \<times> ResultTest option) option"
where
  "ImplTask order a (IfNode b c) s = IfNode_ImplTask a b c s"
| "ImplTask order a (ElseNode b) s = Some (ElseNode_ImplTask a b s)"
| "ImplTask order a (ElseIfNode b c) s = ElseIfNode_ImplTask a b c s"
| "ImplTask order a (NormalNode b) s = Some (NormalNode_ImplTask a b s)"
| "ImplTask order a (ForNode b t) s = Some (ForNode_ImplTask a b t s)"
| "ImplTask order a (ParallelNode b t) s = Some (ParallelNode_ImplTask order a b s)"

text \<open>
  \<open>Run\<close>. The six node structs each carry their own copy of this method, with the same
  body; they differ in the \<open>ImplTask\<close> it reaches. \<open>sched\<close> gives the completion order
  for the parallel node at each address.
\<close>

definition gated :: "FlowNode \<Rightarrow> FlowEngine \<Rightarrow> bool" where
  "gated n s = (ShouldSkip (base n) \<or> Err (result s) \<noteq> None \<or> StatusCode (result s) \<noteq> 0)"

definition call_BeginLogger :: "nat \<Rightarrow> BasicFlowNode \<Rightarrow> FlowEngine \<Rightarrow> FlowEngine" where
  "call_BeginLogger a b s =
     (case BeginLogger b of
        None \<Rightarrow> s
      | Some lg \<Rightarrow> s\<lparr>data := lg (Note b) (data s), trace := trace s @ [BeginHook a]\<rparr>)"

definition call_EndLogger :: "nat \<Rightarrow> BasicFlowNode \<Rightarrow> FlowEngine \<Rightarrow> FlowEngine" where
  "call_EndLogger a b s =
     (case EndLogger b of
        None \<Rightarrow> s
      | Some lg \<Rightarrow>
          s\<lparr>data := lg (Note b) (data s) (result s), trace := trace s @ [EndHook a]\<rparr>)"

text \<open>The lines \<open>if result != nil { SetParentResult(result) }\<close>.\<close>

definition write_back :: "ResultTest option \<Rightarrow> FlowEngine \<Rightarrow> FlowEngine" where
  "write_back r s = (case r of None \<Rightarrow> s | Some x \<Rightarrow> s\<lparr>result := x\<rparr>)"

definition Run :: "(nat \<Rightarrow> nat list) \<Rightarrow> nat \<Rightarrow> FlowEngine \<Rightarrow> FlowEngine option" where
  "Run sched a s =
     (if length (nodes s) \<le> a then None
      else
        let n = nodes s ! a; b = base n in
        if gated n s then Some s
        else (case ImplTask (sched a) a n (call_BeginLogger a b s) of
                None \<Rightarrow> None
              | Some (s2, r) \<Rightarrow> Some (call_EndLogger a b (write_back r s2))))"

section \<open>The builder\<close>

definition NewFlowEngine :: FlowEngine where
  "NewFlowEngine =
     \<lparr>data = \<lparr>Name = [], Age = 0\<rparr>, nodes = [],
      result = \<lparr>Err = None, StatusCode = 0, StatusMsg = [], AgePlusOne = 0\<rparr>,
      onFailFunc = None, onSuccessFunc = None, trace = []\<rparr>"

text \<open>The three lines shared by \<open>Do\<close>, \<open>For\<close>, \<open>Parallel\<close> and \<open>If\<close>: link the last node
  to the new one, whose address is the length of the list, and append it.\<close>

definition append_node :: "FlowNode \<Rightarrow> FlowEngine \<Rightarrow> FlowEngine" where
  "append_node n c =
     (let ns = nodes c;
          ns' = (if length ns \<noteq> 0
                 then ns[length ns - 1 := SetNext (Some (length ns)) (ns ! (length ns - 1))]
                 else ns)
      in c\<lparr>nodes := ns' @ [n]\<rparr>)"

definition FlowEngine_Do :: "ICallable list \<Rightarrow> FlowEngine \<Rightarrow> FlowEngine" where
  "FlowEngine_Do functors c = append_node (NewNormalNode functors) c"

definition FlowEngine_For :: "int \<Rightarrow> ICallable list \<Rightarrow> FlowEngine \<Rightarrow> FlowEngine" where
  "FlowEngine_For tms functors c = append_node (NewForNode tms functors) c"

definition FlowEngine_Parallel :: "ICallable list \<Rightarrow> FlowEngine \<Rightarrow> FlowEngine" where
  "FlowEngine_Parallel functors c = append_node (NewParallelNode functors) c"

text \<open>
  The sub-builder holds pointers to the parent's context, node list and result cell
  and the parent itself, and has callbacks of its own. Its methods act on the parent's
  state, so it is the parent together with the two callbacks.
\<close>

record ElseFlowEngine =
  invoker :: FlowEngine
  else_onFailFunc :: "IOnFailFunc option"
  else_onSuccessFunc :: "IOnSuccessFunc option"

definition NewElseFlowEngine :: "FlowEngine \<Rightarrow> ElseFlowEngine" where
  "NewElseFlowEngine c = \<lparr>invoker = c, else_onFailFunc = None, else_onSuccessFunc = None\<rparr>"

definition FlowEngine_If :: "IBoolFunc option \<Rightarrow> ICallable list \<Rightarrow> FlowEngine \<Rightarrow> ElseFlowEngine"
where
  "FlowEngine_If condition functors c =
     NewElseFlowEngine (append_node (NewIfNode condition functors) c)"

definition ElseFlowEngine_Do :: "ICallable list \<Rightarrow> ElseFlowEngine \<Rightarrow> FlowEngine" where
  "ElseFlowEngine_Do functors e = append_node (NewNormalNode functors) (invoker e)"

definition ElseFlowEngine_For :: "int \<Rightarrow> ICallable list \<Rightarrow> ElseFlowEngine \<Rightarrow> FlowEngine" where
  "ElseFlowEngine_For tms functors e = append_node (NewForNode tms functors) (invoker e)"

definition ElseFlowEngine_Parallel :: "ICallable list \<Rightarrow> ElseFlowEngine \<Rightarrow> FlowEngine" where
  "ElseFlowEngine_Parallel functors e = append_node (NewParallelNode functors) (invoker e)"

definition ElseFlowEngine_If ::
  "IBoolFunc option \<Rightarrow> ICallable list \<Rightarrow> ElseFlowEngine \<Rightarrow> ElseFlowEngine" where
  "ElseFlowEngine_If condition functors e =
     e\<lparr>invoker := append_node (NewIfNode condition functors) (invoker e)\<rparr>"

text \<open>\<open>ElseIf\<close> and \<open>Else\<close> index the last node without the length test; on an empty
  list that is a Go panic, here \<open>None\<close>.\<close>

definition ElseFlowEngine_ElseIf ::
  "IBoolFunc option \<Rightarrow> ICallable list \<Rightarrow> ElseFlowEngine \<Rightarrow> ElseFlowEngine option" where
  "ElseFlowEngine_ElseIf condition functors e =
     (if nodes (invoker e) = [] then None
      else Some (e\<lparr>invoker := append_node (NewElseIfNode condition functors) (invoker e)\<rparr>))"

definition ElseFlowEngine_Else :: "ICallable list \<Rightarrow> ElseFlowEngine \<Rightarrow> FlowEngine option" where
  "ElseFlowEngine_Else functors e =
     (if nodes (invoker e) = [] then None
      else Some (append_node (NewElseNode functors) (invoker e)))"

text \<open>The setters act on the node appended last.\<close>

definition FlowEngine_SetNote :: "string \<Rightarrow> FlowEngine \<Rightarrow> FlowEngine" where
  "FlowEngine_SetNote note c =
     (if length (nodes c) \<noteq> 0
      then c\<lparr>nodes := (nodes c)[length (nodes c) - 1 :=
                          SetNote note (nodes c ! (length (nodes c) - 1))]\<rparr>
      else c)"

definition FlowEngine_SetBeginLogger :: "INodeBeginLogger option \<Rightarrow> FlowEngine \<Rightarrow> FlowEngine" where
  "FlowEngine_SetBeginLogger logger c =
     (if length (nodes c) \<noteq> 0
      then c\<lparr>nodes := (nodes c)[length (nodes c) - 1 :=
                          SetBeginLogger logger (nodes c ! (length (nodes c) - 1))]\<rparr>
      else c)"

definition FlowEngine_SetEndLogger :: "INodeEndLogger option \<Rightarrow> FlowEngine \<Rightarrow> FlowEngine" where
  "FlowEngine_SetEndLogger logger c =
     (if length (nodes c) \<noteq> 0
      then c\<lparr>nodes := (nodes c)[length (nodes c) - 1 :=
                          SetEndLogger logger (nodes c ! (length (nodes c) - 1))]\<rparr>
      else c)"

definition FlowEngine_OnFail :: "IOnFailFunc option \<Rightarrow> FlowEngine \<Rightarrow> FlowEngine" where
  "FlowEngine_OnFail functor c = c\<lparr>onFailFunc := functor\<rparr>"

definition FlowEngine_OnSuccess :: "IOnSuccessFunc option \<Rightarrow> FlowEngine \<Rightarrow> FlowEngine" where
  "FlowEngine_OnSuccess functor c = c\<lparr>onSuccessFunc := functor\<rparr>"

text \<open>\<open>Wait\<close>: the loop over the node list, then the callbacks. An address outside
  the list has no node to run; \<open>Run\<close> is \<open>None\<close> there.\<close>

fun run_nodes :: "(nat \<Rightarrow> nat list) \<Rightarrow> nat list \<Rightarrow> FlowEngine \<Rightarrow> FlowEngine option" where
  "run_nodes sched [] s = Some s"
| "run_nodes sched (a # as) s =
     (case Run sched a s of None \<Rightarrow> None | Some s' \<Rightarrow> run_nodes sched as s')"

definition callbacks ::
  "IOnSuccessFunc option \<Rightarrow> IOnFailFunc option \<Rightarrow> FlowEngine \<Rightarrow> FlowEngine" where
  "callbacks onS onF s =
     (let s1 = (case onS of
                  None \<Rightarrow> s
                | Some f \<Rightarrow>
                    if Err (result s) = None \<and> StatusCode (result s) = 0
                    then s\<lparr>data := f (data s) (result s), trace := trace s @ [OnSuccess]\<rparr>
                    else s)
      in (case onF of
            None \<Rightarrow> s1
          | Some f \<Rightarrow>
              if Err (result s1) \<noteq> None \<or> StatusCode (result s1) \<noteq> 0
              then s1\<lparr>data := f (data s1) (result s1), trace := trace s1 @ [OnFail]\<rparr>
              else s1))"

definition FlowEngine_Wait ::
  "(nat \<Rightarrow> nat list) \<Rightarrow> FlowEngine \<Rightarrow> (FlowEngine \<times> ResultTest) option" where
  "FlowEngine_Wait sched c =
     (case run_nodes sched [0..<length (nodes c)] c of
        None \<Rightarrow> None
      | Some s \<Rightarrow>
          (let s' = callbacks (onSuccessFunc c) (onFailFunc c) s in Some (s', result s')))"

definition ElseFlowEngine_Wait ::
  "(nat \<Rightarrow> nat list) \<Rightarrow> ElseFlowEngine \<Rightarrow> (ElseFlowEngine \<times> ResultTest) option" where
  "ElseFlowEngine_Wait sched e =
     (case run_nodes sched [0..<length (nodes (invoker e))] (invoker e) of
        None \<Rightarrow> None
      | Some s \<Rightarrow>
          (let s' = callbacks (else_onSuccessFunc e) (else_onFailFunc e) s
           in Some (e\<lparr>invoker := s'\<rparr>, result s')))"

section \<open>The task functions of the package\<close>

definition Func1 :: ICallable where
  "Func1 d = (let d' = d\<lparr>Age := Age d + 1\<rparr>
              in (d', Some \<lparr>Err = None, StatusCode = 0, StatusMsg = [], AgePlusOne = Age d' + 1\<rparr>))"

definition Func2 :: ICallable where
  "Func2 d = (d\<lparr>Age := Age d + 1\<rparr>, None)"

definition Func3 :: ICallable where
  "Func3 d = (let d' = d\<lparr>Age := Age d + 1\<rparr>
              in (d', Some \<lparr>Err = None, StatusCode = 0, StatusMsg = [], AgePlusOne = Age d' + 1\<rparr>))"

definition Func4 :: ICallable where
  "Func4 d = (d\<lparr>Age := Age d + 1\<rparr>, None)"

definition Func8 :: ICallable where
  "Func8 d = (let d' = d\<lparr>Age := Age d + 1\<rparr>
              in (d', Some \<lparr>Err = Some (ErrorString ''something wrong''), StatusCode = 0,
                           StatusMsg = [], AgePlusOne = Age d' + 1\<rparr>))"

definition Func9 :: ICallable where
  "Func9 d = (let d' = d\<lparr>Age := Age d + 1\<rparr>
              in (d', Some \<lparr>Err = None, StatusCode = 10000, StatusMsg = [],
                           AgePlusOne = Age d' + 1\<rparr>))"

definition CondFalse :: IBoolFunc where
  "CondFalse d = (d, False)"

definition CondTrue :: IBoolFunc where
  "CondTrue d = (d, True)"

section \<open>Notions for stating the properties\<close>

text \<open>What the closures of a list return, and the context they leave, when they are
  called one after the other from the context \<open>d\<close>.\<close>

fun results_in_order :: "ICallable list \<Rightarrow> DataTest \<Rightarrow> ResultTest option list" where
  "results_in_order [] d = []"
| "results_in_order (f # fs) d = snd (f d) # results_in_order fs (fst (f d))"

fun ctx_after :: "ICallable list \<Rightarrow> DataTest \<Rightarrow> DataTest" where
  "ctx_after [] d = d"
| "ctx_after (f # fs) d = ctx_after fs (fst (f d))"

text \<open>The else nodes met on the way along the \<open>Next\<close> links from \<open>current\<close>, up to the
  first node of another type.\<close>

definition is_else :: "FlowNode \<Rightarrow> bool" where
  "is_else n = (GetNodeType n = ElseIfNodeType \<or> GetNodeType n = ElseNodeType)"

inductive else_chain :: "FlowNode list \<Rightarrow> nat option \<Rightarrow> nat \<Rightarrow> bool" for ns where
  here: "a < length ns \<Longrightarrow> is_else (ns ! a) \<Longrightarrow> else_chain ns (Some a) a"
| later: "c < length ns \<Longrightarrow> is_else (ns ! c) \<Longrightarrow> else_chain ns (GetNext (ns ! c)) a
          \<Longrightarrow> else_chain ns (Some c) a"

text \<open>The links as the builder leaves them: each node points at the node appended
  after it, the last one at nothing.\<close>

definition linked :: "FlowNode list \<Rightarrow> bool" where
  "linked ns =
     (\<forall>i < length ns. GetNext (ns ! i) = (if Suc i < length ns then Some (Suc i) else None))"

text \<open>Two stores of the same shape: the same types and links at every address.\<close>

definition same_shape :: "FlowNode list \<Rightarrow> FlowNode list \<Rightarrow> bool" where
  "same_shape ns ms =
     (length ms = length ns \<and>
      (\<forall>i < length ns. GetNext (ms ! i) = GetNext (ns ! i) \<and>
                        GetNodeType (ms ! i) = GetNodeType (ns ! i)))"

section \<open>Example flows\<close>

text \<open>A flow of two nodes, the second with both hooks set, whose cell already holds a
  failing result.\<close>

definition failed_flow :: FlowEngine where
  "failed_flow =
     (FlowEngine_SetEndLogger (Some (\<lambda>note d r. d\<lparr>Name := note\<rparr>))
       (FlowEngine_SetBeginLogger (Some (\<lambda>note d. d\<lparr>Name := note\<rparr>))
         (FlowEngine_Parallel [Func1, Func2] (FlowEngine_Do [Func1] NewFlowEngine))))
       \<lparr>result := \<lparr>Err = None, StatusCode = 10000, StatusMsg = [], AgePlusOne = 3\<rparr>\<rparr>"

text \<open>An \<open>If\<close> without a condition, followed by a sequential node.\<close>

definition missing_condition_flow :: FlowEngine where
  "missing_condition_flow = ElseFlowEngine_Do [Func2] (FlowEngine_If None [Func1] NewFlowEngine)"

text \<open>A parallel node with the one closure \<open>Func1\<close>, and a sequential node with four
  closures of which the third fails.\<close>

definition parallel_flow :: FlowEngine where
  "parallel_flow = FlowEngine_Parallel [Func1] NewFlowEngine"

definition normal_flow :: FlowEngine where
  "normal_flow = FlowEngine_Do [Func1, Func2, Func8, Func3] NewFlowEngine"

text \<open>A closure that fails at its second call, in a loop of three rounds.\<close>

definition fails_second_time :: ICallable where
  "fails_second_time d =
     (let d' = d\<lparr>Age := Age d + 1\<rparr>
      in (d', if Age d' = 2
              then Some \<lparr>Err = Some (ErrorString ''second call''), StatusCode = 0, StatusMsg = [],
                         AgePlusOne = 0\<rparr>
              else None))"

definition for_flow :: FlowEngine where
  "for_flow = FlowEngine_For 3 [fails_second_time] NewFlowEngine"


text \<open>The flow \<open>Do(Func1).If(CondFalse, Func2).ElseIf(CondTrue, Func3).Else(Func4)\<close>, and
  the flow \<open>If(CondTrue, Func8).Else(Func4)\<close> whose taken branch fails.\<close>

definition else_if_flow :: FlowEngine where
  "else_if_flow =
     (case ElseFlowEngine_ElseIf (Some CondTrue) [Func3]
             (FlowEngine_If (Some CondFalse) [Func2] (FlowEngine_Do [Func1] NewFlowEngine)) of
        None \<Rightarrow> NewFlowEngine
      | Some e \<Rightarrow> (case ElseFlowEngine_Else [Func4] e of None \<Rightarrow> NewFlowEngine | Some c \<Rightarrow> c))"

definition if_fail_flow :: FlowEngine where
  "if_fail_flow =
     (case ElseFlowEngine_Else [Func4] (FlowEngine_If (Some CondTrue) [Func8] NewFlowEngine) of
        None \<Rightarrow> NewFlowEngine
      | Some c \<Rightarrow> c)"

section \<open>The closure loop\<close>

lemma nil_or_ok_simps [simp]:
  "nil_or_ok None" "nil_or_ok (Some x) = (\<not> failing x)"
  by (simp_all add: nil_or_ok_def)

lemma run_functors_pass:
  "\<forall>r \<in> set (results_in_order fs d). nil_or_ok r \<Longrightarrow>
   run_functors a k fs (d, tr) = ((ctx_after fs d, tr @ map (Task a) [k..<k + length fs]), None)"
proof (induction fs arbitrary: d tr k)
  case Nil
  then show ?case by simp
next
  case (Cons f fs)
  obtain d' r where fd: "f d = (d', r)" by (cases "f d")
  with Cons.prems have ok: "nil_or_ok r" and rest: "\<forall>r \<in> set (results_in_order fs d'). nil_or_ok r"
    by auto
  have "[k..<k + length (f # fs)] = k # [Suc k..<Suc k + length fs]"
    by (simp add: upt_rec)
  with Cons.IH [OF rest, of "Suc k" "tr @ [Task a k]"] fd ok show ?case
    by simp
qed

lemma run_functors_append:
  "run_functors a k pre (d, tr) = ((d1, tr1), None) \<Longrightarrow>
   run_functors a k (pre @ fs) (d, tr) = run_functors a (k + length pre) fs (d1, tr1)"
proof (induction pre arbitrary: d tr k)
  case Nil
  then show ?case by simp
next
  case (Cons f pre)
  obtain d' r where fd: "f d = (d', r)" by (cases "f d")
  from Cons.prems fd have ok: "nil_or_ok r"
    by (auto split: if_splits)
  with Cons.prems fd have "run_functors a (Suc k) pre (d', tr @ [Task a k]) = ((d1, tr1), None)"
    by simp
  from Cons.IH [OF this] fd ok show ?case by simp
qed

lemma run_functors_first_failure:
  assumes pre: "\<forall>x \<in> set (results_in_order pre d). nil_or_ok x"
      and f: "f (ctx_after pre d) = (d', Some r)" and r: "failing r"
  shows "run_functors a k (pre @ f # post) (d, tr) =
           ((d', tr @ map (Task a) [k..<Suc (k + length pre)]), Some r)"
proof -
  have "run_functors a k (pre @ f # post) (d, tr) =
          run_functors a (k + length pre) (f # post)
            (ctx_after pre d, tr @ map (Task a) [k..<k + length pre])"
    by (rule run_functors_append) (rule run_functors_pass [OF pre])
  with f r show ?thesis by simp
qed

lemma run_functors_Some_failing:
  "run_functors a k fs w = (w', Some r) \<Longrightarrow> failing r"
proof (induction fs arbitrary: w k)
  case Nil
  then show ?case by simp
next
  case (Cons f fs)
  obtain d tr where w: "w = (d, tr)" by (cases w)
  obtain d' x where fd: "f d = (d', x)" by (cases "f d")
  show ?case
  proof (cases "nil_or_ok x")
    case True
    with Cons.prems w fd have "run_functors a (Suc k) fs (d', tr @ [Task a k]) = (w', Some r)"
      by simp
    then show ?thesis by (rule Cons.IH)
  next
    case False
    with Cons.prems w fd show ?thesis by auto
  qed
qed

section \<open>The walk over the else nodes\<close>

lemma mark_skipped_None [simp]: "mark_skipped None ns = Some ns"
  by (simp add: mark_skipped.simps)

lemma mark_skipped_Some:
  "mark_skipped (Some a) ns =
     (if length ns \<le> a then None
      else if is_else (ns ! a)
      then mark_skipped (GetNext (ns ! a)) (ns[a := SetShouldSkip True (ns ! a)])
      else Some ns)"
  by (subst mark_skipped.simps) (simp add: is_else_def)

lemma base_map_base [simp]: "base (map_base g n) = g (base n)"
  by (cases n) simp_all

lemma SetShouldSkip_fields [simp]:
  "GetNext (SetShouldSkip v n) = GetNext n"
  "GetNodeType (SetShouldSkip v n) = GetNodeType n"
  "is_else (SetShouldSkip v n) = is_else n"
  "ShouldSkip (base (SetShouldSkip v n)) = v"
  by (simp_all add: GetNext_def GetNodeType_def SetShouldSkip_def is_else_def)

lemma same_shape_refl [simp]: "same_shape ns ns"
  by (simp add: same_shape_def)

lemma same_shape_skip: "a < length ns \<Longrightarrow> same_shape ns (ns[a := SetShouldSkip True (ns ! a)])"
  by (simp add: same_shape_def nth_list_update)

lemma same_shape_trans: "same_shape ns ms \<Longrightarrow> same_shape ms ks \<Longrightarrow> same_shape ns ks"
  by (simp add: same_shape_def)

lemma mark_skipped_keeps:
  assumes "mark_skipped cur ns = Some ns'"
  shows "same_shape ns ns' \<and>
         (\<forall>i < length ns. ShouldSkip (base (ns ! i)) \<longrightarrow> ShouldSkip (base (ns' ! i)))"
  using assms
proof (induction cur ns ns' rule: mark_skipped.raw_induct [rotated 1, consumes 1])
  case (1 walk cur ns ns')
  show ?case
  proof (cases cur)
    case None
    with 1 show ?thesis by simp
  next
    case (Some a)
    show ?thesis
    proof (cases "a < length ns \<and> is_else (ns ! a)")
      case True
      let ?ms = "ns[a := SetShouldSkip True (ns ! a)]"
      from 1(2) Some True have "walk (GetNext (ns ! a)) ?ms = Some ns'"
        by (simp add: is_else_def)
      from 1(1) [OF this]
      have sh: "same_shape ?ms ns'"
        and mono: "\<forall>i < length ?ms. ShouldSkip (base (?ms ! i)) \<longrightarrow> ShouldSkip (base (ns' ! i))"
        by simp_all
      from True have "same_shape ns ?ms" by (simp add: same_shape_skip)
      from this sh have "same_shape ns ns'" by (rule same_shape_trans)
      moreover have "\<forall>i < length ns. ShouldSkip (base (ns ! i)) \<longrightarrow> ShouldSkip (base (ns' ! i))"
      proof (intro allI impI)
        fix i assume i: "i < length ns" and sk: "ShouldSkip (base (ns ! i))"
        then have "ShouldSkip (base (?ms ! i))"
          by (cases "i = a") (simp_all add: nth_list_update)
        with mono i show "ShouldSkip (base (ns' ! i))" by simp
      qed
      ultimately show ?thesis by simp
    next
      case False
      with 1(2) Some show ?thesis
        by (auto simp: is_else_def split: if_splits)
    qed
  qed
qed

lemma same_shape_else_chain:
  "else_chain ns cur a \<Longrightarrow> same_shape ns ms \<Longrightarrow> else_chain ms cur a"
proof (induction rule: else_chain.induct)
  case (here a)
  then show ?case
    by (auto simp: same_shape_def is_else_def intro: else_chain.here)
next
  case (later c a)
  then have "c < length ms" "is_else (ms ! c)" "GetNext (ms ! c) = GetNext (ns ! c)"
    by (auto simp: same_shape_def is_else_def)
  with later show ?case
    by (auto intro: else_chain.later)
qed

lemma same_shape_is_else:
  "same_shape ns ms \<Longrightarrow> a < length ns \<Longrightarrow> is_else (ms ! a) = is_else (ns ! a)"
  by (simp add: same_shape_def is_else_def)

lemma mark_skipped_chain_shape:
  "else_chain ns0 cur j \<Longrightarrow> same_shape ns0 ns \<Longrightarrow> mark_skipped cur ns = Some ns'
     \<Longrightarrow> ShouldSkip (base (ns' ! j))"
proof (induction arbitrary: ns rule: else_chain.induct)
  case (here a)
  let ?ms = "ns[a := SetShouldSkip True (ns ! a)]"
  from here have a: "a < length ns" "is_else (ns ! a)"
    by (simp_all add: same_shape_is_else) (simp add: same_shape_def)
  with here.prems have "mark_skipped (GetNext (ns ! a)) ?ms = Some ns'"
    by (simp add: mark_skipped_Some)
  from mark_skipped_keeps [OF this] a show ?case
    by simp
next
  case (later c a)
  let ?ms = "ns[c := SetShouldSkip True (ns ! c)]"
  from later have c: "c < length ns" "is_else (ns ! c)" "GetNext (ns ! c) = GetNext (ns0 ! c)"
    by (simp_all add: same_shape_is_else) (simp_all add: same_shape_def)
  with later.prems have w: "mark_skipped (GetNext (ns0 ! c)) ?ms = Some ns'"
    by (simp add: mark_skipped_Some)
  from later.prems(1) same_shape_skip [OF c(1)] have "same_shape ns0 ?ms"
    by (rule same_shape_trans)
  from later.IH [OF this w] show ?case .
qed

lemma mark_skipped_chain:
  "mark_skipped cur ns = Some ns' \<Longrightarrow> else_chain ns cur j \<Longrightarrow> ShouldSkip (base (ns' ! j))"
  by (rule mark_skipped_chain_shape [where ?ns0.0 = ns]) simp_all

lemma linked_skip:
  "linked ns \<Longrightarrow> linked (ns[a := SetShouldSkip True (ns ! a)])"
  unfolding linked_def
proof (intro allI impI)
  fix i
  assume l: "\<forall>i<length ns. GetNext (ns ! i) = (if Suc i < length ns then Some (Suc i) else None)"
    and i: "i < length (ns[a := SetShouldSkip True (ns ! a)])"
  then have "GetNext (ns[a := SetShouldSkip True (ns ! a)] ! i) = GetNext (ns ! i)"
    by (cases "i = a") simp_all
  with l i show "GetNext (ns[a := SetShouldSkip True (ns ! a)] ! i) =
      (if Suc i < length (ns[a := SetShouldSkip True (ns ! a)]) then Some (Suc i) else None)"
    by simp
qed

lemma mark_skipped_returns:
  "linked ns \<Longrightarrow> a < length ns \<Longrightarrow> \<exists>ns'. mark_skipped (Some a) ns = Some ns'"
proof (induction "length ns - a" arbitrary: a ns)
  case 0
  then show ?case by simp
next
  case (Suc m)
  let ?ms = "ns[a := SetShouldSkip True (ns ! a)]"
  show ?case
  proof (cases "is_else (ns ! a)")
    case False
    with Suc.prems show ?thesis by (simp add: mark_skipped_Some)
  next
    case True
    show ?thesis
    proof (cases "Suc a < length ns")
      case False
      with Suc.prems have "GetNext (ns ! a) = None" by (simp add: linked_def)
      with True Suc.prems show ?thesis by (simp add: mark_skipped_Some)
    next
      case next_in: True
      with Suc.prems have nx: "GetNext (ns ! a) = Some (Suc a)" by (simp add: linked_def)
      from Suc.hyps(2) next_in have "m = length ?ms - Suc a" by simp
      from Suc.hyps(1) [OF this linked_skip [OF Suc.prems(1)]] next_in
      obtain ns' where "mark_skipped (Some (Suc a)) ?ms = Some ns'" by auto
      with True nx Suc.prems show ?thesis by (simp add: mark_skipped_Some)
    qed
  qed
qed

lemma mark_skipped_linked_returns:
  "linked ns \<Longrightarrow> a < length ns \<Longrightarrow> \<exists>ns'. mark_skipped (GetNext (ns ! a)) ns = Some ns'"
  by (cases "Suc a < length ns") (simp_all add: linked_def mark_skipped_returns)

section \<open>Unfolding the definitions on the example flows\<close>

lemmas builder_defs =
  NewFlowEngine_def append_node_def NewNormalNode_def NewParallelNode_def NewForNode_def
  NewIfNode_def NewElseIfNode_def NewElseNode_def NewBasicFlowNode_def NewElseFlowEngine_def
  FlowEngine_Do_def FlowEngine_For_def FlowEngine_Parallel_def FlowEngine_If_def
  ElseFlowEngine_Do_def ElseFlowEngine_ElseIf_def ElseFlowEngine_Else_def
  FlowEngine_SetBeginLogger_def FlowEngine_SetEndLogger_def FlowEngine_SetNote_def
  SetNext_def SetBeginLogger_def SetEndLogger_def SetNote_def

lemmas run_defs =
  Run_def gated_def call_BeginLogger_def call_EndLogger_def write_back_def
  IfNode_ImplTask_def ElseIfNode_ImplTask_def ElseNode_ImplTask_def NormalNode_ImplTask_def
  mark_skipped_Some is_else_def GetNodeType_def GetNext_def SetShouldSkip_def
  failing_def Let_def

section \<open>The gate\<close>

lemma hook_fields [simp]:
  "result (call_BeginLogger a b s) = result s"
  "nodes (call_BeginLogger a b s) = nodes s"
  "result (call_EndLogger a b s) = result s"
  "nodes (call_EndLogger a b s) = nodes s"
  "nodes (write_back r s) = nodes s"
  "result (write_back r s) = (case r of None \<Rightarrow> result s | Some x \<Rightarrow> x)"
  by (simp_all add: call_BeginLogger_def call_EndLogger_def write_back_def split: option.splits)

lemma gated_failing: "gated n s = (ShouldSkip (base n) \<or> failing (result s))"
  by (simp add: gated_def failing_def)

lemma Run_gated: "a < length (nodes s) \<Longrightarrow> gated (nodes s ! a) s \<Longrightarrow> Run sched a s = Some s"
  by (simp add: Run_def)

lemma run_nodes_failing:
  "failing (result s) \<Longrightarrow> \<forall>x \<in> set as. x < length (nodes s) \<Longrightarrow> run_nodes sched as s = Some s"
  by (induction as) (simp_all add: Run_gated gated_failing)

lemma callbacks_fields [simp]:
  "result (callbacks onS onF s) = result s"
  "nodes (callbacks onS onF s) = nodes s"
  by (simp_all add: callbacks_def Let_def split: option.splits)

lemma callbacks_failing_trace:
  "failing (result s) \<Longrightarrow>
   trace (callbacks onS onF s) = trace s @ (case onF of None \<Rightarrow> [] | Some f \<Rightarrow> [OnFail])"
  by (auto simp: callbacks_def Let_def failing_def split: option.splits)

text \<open>
  Claim C5. When the skip flag of a node is set, or the cell holds a failing result
  (\<open>Err\<close> set or \<open>StatusCode\<close> not zero), \<open>Run\<close> returns at once and leaves the
  whole state as it was: context, cell, nodes and the record of calls, so that no
  hook and no closure was called. Hence from a failing cell on, running any nodes of
  the list changes nothing, and \<open>Wait\<close> returns that same failing result after calling
  nothing but the failure callback.
\<close>

theorem Run_short_circuit:
  "(a < length (nodes s) \<and> (ShouldSkip (base (nodes s ! a)) \<or> failing (result s))
      \<longrightarrow> Run sched a s = Some s)
   \<and> (failing (result s) \<and> (\<forall>x \<in> set as. x < length (nodes s))
      \<longrightarrow> run_nodes sched as s = Some s)
   \<and> (failing (result s)
      \<longrightarrow> (\<exists>s'. FlowEngine_Wait sched s = Some (s', result s) \<and> nodes s' = nodes s
              \<and> trace s' = trace s @ (case onFailFunc s of None \<Rightarrow> [] | Some f \<Rightarrow> [OnFail])))"
proof (intro conjI impI)
  assume "a < length (nodes s) \<and> (ShouldSkip (base (nodes s ! a)) \<or> failing (result s))"
  then show "Run sched a s = Some s"
    by (simp add: Run_gated gated_failing)
next
  assume "failing (result s) \<and> (\<forall>x \<in> set as. x < length (nodes s))"
  then show "run_nodes sched as s = Some s"
    by (simp add: run_nodes_failing)
next
  assume f: "failing (result s)"
  then have "run_nodes sched [0..<length (nodes s)] s = Some s"
    by (simp add: run_nodes_failing)
  with f show "\<exists>s'. FlowEngine_Wait sched s = Some (s', result s) \<and> nodes s' = nodes s
      \<and> trace s' = trace s @ (case onFailFunc s of None \<Rightarrow> [] | Some f \<Rightarrow> [OnFail])"
    by (simp add: FlowEngine_Wait_def Let_def callbacks_failing_trace)
qed

theorem Run_short_circuit_witness:
  "(1 < length (nodes failed_flow) \<and> failing (result failed_flow))
   \<and> Run (\<lambda>a. [0, 1]) 1 failed_flow = Some failed_flow
   \<and> run_nodes (\<lambda>a. [0, 1]) [0, 1] failed_flow = Some failed_flow"
  using Run_short_circuit [of 1 failed_flow "\<lambda>a. [0, 1]" "[0, 1]"]
  by (simp add: failed_flow_def builder_defs failing_def)

section \<open>A missing condition\<close>

text \<open>
  Claim C9. An \<open>If\<close> or \<open>ElseIf\<close> node without a condition, when its \<open>Run\<close> is not
  gated out, puts the result carrying \<open>ConditionNotFoundError\<close> into the cell. \<open>Run\<close>
  returns with it (it is a result, not a crash), the result is failing, and from
  then on running any nodes of the list changes nothing.
\<close>

theorem condition_missing_fails:
  assumes "a < length (nodes s)"
      and "nodes s ! a = IfNode b None \<or> nodes s ! a = ElseIfNode b None"
      and "\<not> gated (nodes s ! a) s"
  shows "\<exists>s'. Run sched a s = Some s'
           \<and> result s' = \<lparr>Err = Some ConditionNotFoundError, StatusCode = 0, StatusMsg = [],
                            AgePlusOne = 0\<rparr>
           \<and> failing (result s') \<and> nodes s' = nodes s
           \<and> (\<forall>as. (\<forall>x \<in> set as. x < length (nodes s')) \<longrightarrow> run_nodes sched as s' = Some s')"
proof -
  let ?cm = "\<lparr>Err = Some ConditionNotFoundError, StatusCode = 0, StatusMsg = [], AgePlusOne = 0\<rparr>"
  let ?s' = "call_EndLogger a b (write_back (Some ?cm) (call_BeginLogger a b s))"
  from assms(2) have b: "base (nodes s ! a) = b"
    and it: "ImplTask (sched a) a (nodes s ! a) (call_BeginLogger a b s) =
               Some (call_BeginLogger a b s, Some ?cm)"
    by (auto simp: IfNode_ImplTask_def ElseIfNode_ImplTask_def)
  with assms have run: "Run sched a s = Some ?s'"
    by (simp add: Run_def)
  have res: "result ?s' = ?cm" by simp
  then have f: "failing (result ?s')" by (simp add: failing_def)
  have "\<forall>as. (\<forall>x \<in> set as. x < length (nodes ?s')) \<longrightarrow> run_nodes sched as ?s' = Some ?s'"
    using f by (auto intro: run_nodes_failing)
  with run res f show ?thesis by simp
qed

theorem condition_missing_fails_witness:
  "\<exists>s'. Run (\<lambda>a. []) 0 missing_condition_flow = Some s'
      \<and> result s' = \<lparr>Err = Some ConditionNotFoundError, StatusCode = 0, StatusMsg = [],
                       AgePlusOne = 0\<rparr>
      \<and> run_nodes (\<lambda>a. []) [1] s' = Some s'"
proof -
  have "\<exists>s'. Run (\<lambda>a. []) 0 missing_condition_flow = Some s'
           \<and> result s' = \<lparr>Err = Some ConditionNotFoundError, StatusCode = 0, StatusMsg = [],
                            AgePlusOne = 0\<rparr>
           \<and> failing (result s') \<and> nodes s' = nodes missing_condition_flow
           \<and> (\<forall>as. (\<forall>x \<in> set as. x < length (nodes s')) \<longrightarrow>
                  run_nodes (\<lambda>a. []) as s' = Some s')"
    by (rule condition_missing_fails
          [where b = "\<lparr>Functors = [Func1], NodeType = IfNodeType, Next = Some 1,
                        ShouldSkip = False, BeginLogger = None, EndLogger = None, Note = []\<rparr>"])
       (simp_all add: missing_condition_flow_def builder_defs gated_def)
  then obtain s' where s': "Run (\<lambda>a. []) 0 missing_condition_flow = Some s'"
      "result s' = \<lparr>Err = Some ConditionNotFoundError, StatusCode = 0, StatusMsg = [],
                     AgePlusOne = 0\<rparr>"
      "nodes s' = nodes missing_condition_flow"
      "\<forall>as. (\<forall>x \<in> set as. x < length (nodes s')) \<longrightarrow> run_nodes (\<lambda>a. []) as s' = Some s'"
    by blast
  from s'(3) have "\<forall>x \<in> set [1]. x < length (nodes s')"
    by (simp add: missing_condition_flow_def builder_defs)
  with s'(4) have "run_nodes (\<lambda>a. []) [1] s' = Some s'" by blast
  with s'(1,2) show ?thesis by blast
qed

section \<open>Sequential nodes\<close>

lemma write_back_same [simp]: "write_back (Some (result s)) s = s"
  by (simp add: write_back_def)

text \<open>
  Claim C6. The \<open>ImplTask\<close> of a sequential node (the \<open>NormalNode\<close> struct, and the
  \<open>ElseNode\<close> struct that \<open>Do\<close> builds) calls its closures in order. When the closures
  before \<open>f\<close> return nil or a result that is not failing and \<open>f\<close> returns a failing
  result, that result is returned and no later closure is called. When no closure
  returns a failing result, all are called, the cell's own value is returned, and the
  cell after \<open>Run\<close> is the cell before it.
\<close>

theorem normal_node_first_failure:
  assumes n: "n = NormalNode b \<or> n = ElseNode b"
  shows "(\<forall>pre f post d' r.
            Functors b = pre @ f # post
            \<and> (\<forall>x \<in> set (results_in_order pre (data s)). nil_or_ok x)
            \<and> f (ctx_after pre (data s)) = (d', Some r) \<and> failing r
            \<longrightarrow> ImplTask order a n s =
                  Some (s\<lparr>data := d', trace := trace s @ map (Task a) [0..<Suc (length pre)]\<rparr>,
                        Some r))
       \<and> ((\<forall>x \<in> set (results_in_order (Functors b) (data s)). nil_or_ok x)
            \<longrightarrow> ImplTask order a n s =
                  Some (s\<lparr>data := ctx_after (Functors b) (data s),
                          trace := trace s @ map (Task a) [0..<length (Functors b)]\<rparr>,
                        Some (result s)))
       \<and> (a < length (nodes s) \<and> nodes s ! a = n \<and> \<not> gated n s
            \<and> (\<forall>x \<in> set (results_in_order (Functors b) (data (call_BeginLogger a b s))).
                   nil_or_ok x)
            \<longrightarrow> (\<exists>s'. Run sched a s = Some s' \<and> result s' = result s))"
proof (intro conjI allI impI)
  fix pre f post d' r
  assume h: "Functors b = pre @ f # post
            \<and> (\<forall>x \<in> set (results_in_order pre (data s)). nil_or_ok x)
            \<and> f (ctx_after pre (data s)) = (d', Some r) \<and> failing r"
  then have "run_functors a 0 (Functors b) (data s, trace s) =
               ((d', trace s @ map (Task a) [0..<Suc (0 + length pre)]), Some r)"
    using run_functors_first_failure [of pre "data s" f d' r a 0 post "trace s"] by simp
  with n show "ImplTask order a n s =
      Some (s\<lparr>data := d', trace := trace s @ map (Task a) [0..<Suc (length pre)]\<rparr>, Some r)"
    by (auto simp: NormalNode_ImplTask_def ElseNode_ImplTask_def)
next
  assume "\<forall>x \<in> set (results_in_order (Functors b) (data s)). nil_or_ok x"
  then have "run_functors a 0 (Functors b) (data s, trace s) =
      ((ctx_after (Functors b) (data s), trace s @ map (Task a) [0..<0 + length (Functors b)]), None)"
    by (rule run_functors_pass)
  with n show "ImplTask order a n s =
      Some (s\<lparr>data := ctx_after (Functors b) (data s),
              trace := trace s @ map (Task a) [0..<length (Functors b)]\<rparr>, Some (result s))"
    by (auto simp: NormalNode_ImplTask_def ElseNode_ImplTask_def)
next
  let ?s1 = "call_BeginLogger a b s"
  assume h: "a < length (nodes s) \<and> nodes s ! a = n \<and> \<not> gated n s
            \<and> (\<forall>x \<in> set (results_in_order (Functors b) (data ?s1)). nil_or_ok x)"
  then have "run_functors a 0 (Functors b) (data ?s1, trace ?s1) =
      ((ctx_after (Functors b) (data ?s1), trace ?s1 @ map (Task a) [0..<0 + length (Functors b)]), None)"
    by (intro run_functors_pass) simp
  with n have "\<exists>s2. ImplTask (sched a) a n ?s1 = Some (s2, Some (result s)) \<and> result s2 = result s"
    by (auto simp: NormalNode_ImplTask_def ElseNode_ImplTask_def)
  then obtain s2 where "ImplTask (sched a) a n ?s1 = Some (s2, Some (result s))" "result s2 = result s"
    by blast
  moreover from n have "base n = b" by auto
  ultimately show "\<exists>s'. Run sched a s = Some s' \<and> result s' = result s"
    using h by (simp add: Run_def)
qed

theorem normal_node_first_failure_witness:
  "ImplTask [] 0 (nodes normal_flow ! 0) normal_flow =
     Some (normal_flow\<lparr>data := \<lparr>Name = [], Age = 3\<rparr>, trace := [Task 0 0, Task 0 1, Task 0 2]\<rparr>,
           Some \<lparr>Err = Some (ErrorString ''something wrong''), StatusCode = 0, StatusMsg = [],
                  AgePlusOne = 4\<rparr>)"
proof -
  let ?b = "NewBasicFlowNode NormalNodeType [Func1, Func2, Func8, Func3]"
  have n: "nodes normal_flow ! 0 = ElseNode ?b"
    by (simp add: normal_flow_def builder_defs)
  have "ElseNode ?b = NormalNode ?b \<or> ElseNode ?b = ElseNode ?b"
    by simp
  note first = normal_node_first_failure [OF this, THEN conjunct1, rule_format,
      where pre = "[Func1, Func2]" and f = Func8 and post = "[Func3]" and s = normal_flow
        and d' = "\<lparr>Name = [], Age = 3\<rparr>"
        and r = "\<lparr>Err = Some (ErrorString ''something wrong''), StatusCode = 0, StatusMsg = [],
                  AgePlusOne = 4\<rparr>"]
  have "ImplTask [] 0 (ElseNode ?b) normal_flow =
     Some (normal_flow\<lparr>data := \<lparr>Name = [], Age = 3\<rparr>,
                        trace := trace normal_flow @ map (Task 0) [0..<Suc (length [Func1, Func2])]\<rparr>,
           Some \<lparr>Err = Some (ErrorString ''something wrong''), StatusCode = 0, StatusMsg = [],
                  AgePlusOne = 4\<rparr>)"
    by (rule first)
       (simp add: NewBasicFlowNode_def normal_flow_def builder_defs Func1_def Func2_def Func8_def
          failing_def Let_def)
  moreover have "trace normal_flow @ map (Task 0) [0..<Suc (length [Func1, Func2])] =
      [Task 0 0, Task 0 1, Task 0 2]"
    by (simp add: normal_flow_def builder_defs upt_rec)
  ultimately show ?thesis using n by simp
qed

lemma ForNode_loop_Some_failing:
  "ForNode_loop a i n fs w = (w', Some r) \<Longrightarrow> failing r"
proof (induction a i n fs w rule: ForNode_loop.induct)
  case (1 a i n fs w)
  show ?case
  proof (cases "i < n")
    case False
    with "1.prems" show ?thesis by (simp add: ForNode_loop.simps)
  next
    case True
    obtain w1 x where rf: "run_functors a 0 fs w = (w1, x)" by (cases "run_functors a 0 fs w")
    show ?thesis
    proof (cases x)
      case None
      with True rf "1.prems" have "ForNode_loop a (i + 1) n fs w1 = (w', Some r)"
        by (simp add: ForNode_loop.simps [of a i])
      with "1.IH" [OF True _ _ ] rf None show ?thesis by simp
    next
      case (Some y)
      with True rf "1.prems" have "y = r" by (simp add: ForNode_loop.simps [of a i])
      with rf Some show ?thesis by (auto dest: run_functors_Some_failing)
    qed
  qed
qed

text \<open>What a sequential node's \<open>ImplTask\<close> hands back.\<close>

lemma seq_ImplTask_result:
  assumes "ImplTask order a n s = Some (s2, r)" and "\<forall>b t. n \<noteq> ParallelNode b t"
  shows "result s2 = result s \<and> (r = Some (result s) \<or> (\<exists>x. r = Some x \<and> failing x))"
proof (cases n)
  case (IfNode b c)
  with assms(1) show ?thesis
    by (auto simp: IfNode_ImplTask_def failing_def split: option.splits prod.splits if_splits
          dest: run_functors_Some_failing)
next
  case (ElseNode b)
  with assms(1) show ?thesis
    by (auto simp: ElseNode_ImplTask_def split: option.splits prod.splits
          dest: run_functors_Some_failing)
next
  case (ElseIfNode b c)
  with assms(1) show ?thesis
    by (auto simp: ElseIfNode_ImplTask_def failing_def split: option.splits prod.splits if_splits
          dest: run_functors_Some_failing)
next
  case (NormalNode b)
  with assms(1) show ?thesis
    by (auto simp: NormalNode_ImplTask_def split: option.splits prod.splits
          dest: run_functors_Some_failing)
next
  case (ForNode b t)
  with assms(1) show ?thesis
    by (auto simp: ForNode_ImplTask_def split: option.splits prod.splits
          dest: ForNode_loop_Some_failing)
next
  case (ParallelNode b t)
  with assms(2) show ?thesis by simp
qed

text \<open>
  Claim C10. \<open>Run\<close> on a node that is not a parallel node leaves the cell as it was or
  puts a failing result into it: a result that is not failing, returned by a closure,
  never reaches the cell. A parallel node can put another result that is not failing
  into the cell: the node with the one closure \<open>Func1\<close> does.
\<close>

theorem sequential_nodes_keep_or_fail:
  "(a < length (nodes s) \<and> (\<forall>b t. nodes s ! a \<noteq> ParallelNode b t) \<and> Run sched a s = Some s'
      \<longrightarrow> result s' = result s \<or> failing (result s'))
   \<and> (\<exists>s'. Run (\<lambda>a. [0]) 0 parallel_flow = Some s' \<and> \<not> failing (result s')
          \<and> result s' \<noteq> result parallel_flow)"
proof (intro conjI impI)
  assume h: "a < length (nodes s) \<and> (\<forall>b t. nodes s ! a \<noteq> ParallelNode b t) \<and> Run sched a s = Some s'"
  let ?n = "nodes s ! a"
  let ?s1 = "call_BeginLogger a (base ?n) s"
  show "result s' = result s \<or> failing (result s')"
  proof (cases "gated ?n s")
    case True
    from h have "a < length (nodes s)" by simp
    from Run_gated [OF this True] h show ?thesis by simp
  next
    case False
    with h obtain s2 r where it: "ImplTask (sched a) a ?n ?s1 = Some (s2, r)"
      and s': "s' = call_EndLogger a (base ?n) (write_back r s2)"
      by (auto simp: Run_def Let_def split: option.splits if_splits)
    from h have "result s2 = result ?s1 \<and> (r = Some (result ?s1) \<or> (\<exists>x. r = Some x \<and> failing x))"
      by (intro seq_ImplTask_result [OF it]) simp
    with s' show ?thesis by auto
  qed
next
  show "\<exists>s'. Run (\<lambda>a. [0]) 0 parallel_flow = Some s' \<and> \<not> failing (result s')
          \<and> result s' \<noteq> result parallel_flow"
    by (simp add: parallel_flow_def builder_defs Run_def gated_def ParallelNode_ImplTask_def
          call_BeginLogger_def call_EndLogger_def write_back_def Func1_def Let_def failing_def)
qed

theorem sequential_nodes_keep_or_fail_witness:
  "\<exists>s'. Run (\<lambda>a. []) 0 (FlowEngine_Do [Func1] NewFlowEngine) = Some s'
      \<and> result s' = result (FlowEngine_Do [Func1] NewFlowEngine)
      \<and> data s' = \<lparr>Name = [], Age = 1\<rparr>"
proof -
  let ?s = "FlowEngine_Do [Func1] NewFlowEngine"
  let ?s' = "?s\<lparr>data := \<lparr>Name = [], Age = 1\<rparr>, trace := [Task 0 0]\<rparr>"
  have run: "Run (\<lambda>a. []) 0 ?s = Some ?s'"
    by (simp add: builder_defs Run_def gated_def ElseNode_ImplTask_def
          call_BeginLogger_def call_EndLogger_def write_back_def Func1_def Let_def failing_def)
  have ok: "\<not> failing (result ?s')"
    by (simp add: builder_defs failing_def)
  have "0 < length (nodes ?s) \<and> (\<forall>b t. nodes ?s ! 0 \<noteq> ParallelNode b t)"
    by (simp add: builder_defs)
  with run sequential_nodes_keep_or_fail [THEN conjunct1, rule_format, of 0 ?s "\<lambda>a. []" ?s']
  have "result ?s' = result ?s \<or> failing (result ?s')"
    by blast
  with ok have "result ?s' = result ?s" by blast
  with run show ?thesis by simp
qed

section \<open>The loop node\<close>

lemma results_in_order_append:
  "results_in_order (xs @ ys) d = results_in_order xs d @ results_in_order ys (ctx_after xs d)"
  by (induction xs arbitrary: d) simp_all

lemma ctx_after_append: "ctx_after (xs @ ys) d = ctx_after ys (ctx_after xs d)"
  by (induction xs arbitrary: d) simp_all

text \<open>Passing \<open>j\<close> full rounds of the loop, none with a failing result.\<close>

lemma ForNode_loop_rounds:
  "int j \<le> n - i \<Longrightarrow>
   \<forall>x \<in> set (results_in_order (concat (replicate j fs)) d). nil_or_ok x \<Longrightarrow>
   ForNode_loop a i n fs (d, tr) =
     ForNode_loop a (i + int j) n fs
       (ctx_after (concat (replicate j fs)) d,
        tr @ concat (replicate j (map (Task a) [0..<length fs])))"
proof (induction j arbitrary: i d tr)
  case 0
  then show ?case by simp
next
  case (Suc j)
  from Suc.prems(1) have lt: "i < n" by simp
  from Suc.prems(2) have ok1: "\<forall>x \<in> set (results_in_order fs d). nil_or_ok x"
    and ok2: "\<forall>x \<in> set (results_in_order (concat (replicate j fs)) (ctx_after fs d)). nil_or_ok x"
    by (simp_all add: results_in_order_append)
  have "run_functors a 0 fs (d, tr) =
          ((ctx_after fs d, tr @ map (Task a) [0..<0 + length fs]), None)"
    using ok1 by (rule run_functors_pass)
  with lt have "ForNode_loop a i n fs (d, tr) =
      ForNode_loop a (i + 1) n fs (ctx_after fs d, tr @ map (Task a) [0..<length fs])"
    by (simp add: ForNode_loop.simps [of a i])
  also from Suc.prems(1) have "int j \<le> n - (i + 1)" by simp
  from Suc.IH [OF this ok2]
  have "ForNode_loop a (i + 1) n fs (ctx_after fs d, tr @ map (Task a) [0..<length fs]) =
      ForNode_loop a (i + 1 + int j) n fs
        (ctx_after (concat (replicate j fs)) (ctx_after fs d),
         (tr @ map (Task a) [0..<length fs]) @ concat (replicate j (map (Task a) [0..<length fs])))" .
  finally show ?case
    by (simp add: ctx_after_append algebra_simps)
qed

lemma ForNode_loop_done: "n \<le> i \<Longrightarrow> ForNode_loop a i n fs w = (w, None)"
  by (simp add: ForNode_loop.simps)

text \<open>
  Claim C7. A \<open>For\<close> node with count \<open>n\<close> runs its closure list round after round.
  With \<open>n\<close> at most zero no closure is called and the cell's own value is returned.
  When \<open>j\<close> rounds, \<open>j < n\<close>, pass without a failing result and in the next round the
  closure \<open>f\<close> is the first to return a failing result, that result is returned at
  once: the calls are those of the \<open>j\<close> full rounds and of the round up to \<open>f\<close>,
  whatever \<open>n\<close> is. When all \<open>n\<close> rounds pass, the cell's own value is returned.
\<close>

theorem for_node_iterations:
  "(n \<le> 0 \<longrightarrow> ForNode_ImplTask a b n s = (s, Some (result s)))
   \<and> (\<forall>j pre f post d' r.
         int j < n \<and> Functors b = pre @ f # post
         \<and> (\<forall>x \<in> set (results_in_order (concat (replicate j (Functors b)) @ pre) (data s)).
                nil_or_ok x)
         \<and> f (ctx_after (concat (replicate j (Functors b)) @ pre) (data s)) = (d', Some r)
         \<and> failing r
         \<longrightarrow> ForNode_ImplTask a b n s =
               (s\<lparr>data := d',
                   trace := trace s @ concat (replicate j (map (Task a) [0..<length (Functors b)]))
                              @ map (Task a) [0..<Suc (length pre)]\<rparr>,
                Some r))
   \<and> ((\<forall>x \<in> set (results_in_order (concat (replicate (nat n) (Functors b))) (data s)).
          nil_or_ok x)
       \<longrightarrow> ForNode_ImplTask a b n s =
             (s\<lparr>data := ctx_after (concat (replicate (nat n) (Functors b))) (data s),
                 trace := trace s
                            @ concat (replicate (nat n) (map (Task a) [0..<length (Functors b)]))\<rparr>,
              Some (result s)))"
proof (intro conjI allI impI)
  assume "n \<le> 0"
  then show "ForNode_ImplTask a b n s = (s, Some (result s))"
    by (simp add: ForNode_ImplTask_def ForNode_loop_done)
next
  fix j pre f post d' r
  let ?fs = "Functors b"
  let ?dj = "ctx_after (concat (replicate j ?fs)) (data s)"
  let ?trj = "trace s @ concat (replicate j (map (Task a) [0..<length ?fs]))"
  assume h: "int j < n \<and> ?fs = pre @ f # post
         \<and> (\<forall>x \<in> set (results_in_order (concat (replicate j ?fs) @ pre) (data s)). nil_or_ok x)
         \<and> f (ctx_after (concat (replicate j ?fs) @ pre) (data s)) = (d', Some r)
         \<and> failing r"
  then have j: "int j < n" and fs: "?fs = pre @ f # post" and r: "failing r"
    by blast+
  from h have "\<forall>x \<in> set (results_in_order (concat (replicate j ?fs) @ pre) (data s)). nil_or_ok x"
    by blast
  then have okj: "\<forall>x \<in> set (results_in_order (concat (replicate j ?fs)) (data s)). nil_or_ok x"
    and okp: "\<forall>x \<in> set (results_in_order pre ?dj). nil_or_ok x"
    unfolding results_in_order_append by auto
  from h have "f (ctx_after (concat (replicate j ?fs) @ pre) (data s)) = (d', Some r)"
    by blast
  then have f: "f (ctx_after pre ?dj) = (d', Some r)"
    unfolding ctx_after_append .
  from j have "int j \<le> n - 0" by simp
  from ForNode_loop_rounds [OF this okj, of a "trace s"]
  have "ForNode_loop a 0 n ?fs (data s, trace s) = ForNode_loop a (int j) n ?fs (?dj, ?trj)"
    by simp
  also have "run_functors a 0 (pre @ f # post) (?dj, ?trj) =
      ((d', ?trj @ map (Task a) [0..<Suc (0 + length pre)]), Some r)"
    using okp f r by (rule run_functors_first_failure)
  with j fs have "ForNode_loop a (int j) n ?fs (?dj, ?trj) =
      ((d', ?trj @ map (Task a) [0..<Suc (length pre)]), Some r)"
    by (simp add: ForNode_loop.simps [of a "int j"])
  finally show "ForNode_ImplTask a b n s =
               (s\<lparr>data := d',
                   trace := trace s @ concat (replicate j (map (Task a) [0..<length (Functors b)]))
                              @ map (Task a) [0..<Suc (length pre)]\<rparr>,
                Some r)"
    by (simp add: ForNode_ImplTask_def)
next
  let ?fs = "Functors b"
  assume ok: "\<forall>x \<in> set (results_in_order (concat (replicate (nat n) ?fs)) (data s)). nil_or_ok x"
  have "int (nat n) \<le> n - 0 \<or> n < 0" by auto
  then have "ForNode_loop a 0 n ?fs (data s, trace s) =
      ((ctx_after (concat (replicate (nat n) ?fs)) (data s),
        trace s @ concat (replicate (nat n) (map (Task a) [0..<length ?fs]))), None)"
  proof
    assume le: "int (nat n) \<le> n - 0"
    from ForNode_loop_rounds [OF le ok, of a "trace s"] show ?thesis
      by (simp add: ForNode_loop_done)
  next
    assume "n < 0"
    then show ?thesis by (simp add: ForNode_loop_done)
  qed
  then show "ForNode_ImplTask a b n s =
             (s\<lparr>data := ctx_after (concat (replicate (nat n) ?fs)) (data s),
                 trace := trace s @ concat (replicate (nat n) (map (Task a) [0..<length ?fs]))\<rparr>,
              Some (result s))"
    by (simp add: ForNode_ImplTask_def)
qed

theorem for_node_iterations_witness:
  "ForNode_ImplTask 0 (base (nodes for_flow ! 0)) 3 for_flow =
     (for_flow\<lparr>data := \<lparr>Name = [], Age = 2\<rparr>, trace := [Task 0 0, Task 0 0]\<rparr>,
      Some \<lparr>Err = Some (ErrorString ''second call''), StatusCode = 0, StatusMsg = [],
             AgePlusOne = 0\<rparr>)
   \<and> ForNode_ImplTask 0 (base (nodes for_flow ! 0)) 0 for_flow = (for_flow, Some (result for_flow))"
proof -
  let ?b = "base (nodes for_flow ! 0)"
  let ?r = "\<lparr>Err = Some (ErrorString ''second call''), StatusCode = 0, StatusMsg = [],
             AgePlusOne = 0\<rparr>"
  have b: "Functors ?b = [fails_second_time]"
    by (simp add: for_flow_def builder_defs)
  have d: "data for_flow = \<lparr>Name = [], Age = 0\<rparr>" "trace for_flow = []"
    by (simp_all add: for_flow_def builder_defs)
  note second = for_node_iterations [THEN conjunct2, THEN conjunct1, rule_format,
      where j = 1 and pre = "[]" and f = fails_second_time and post = "[]" and b = ?b
        and s = for_flow and n = 3 and d' = "\<lparr>Name = [], Age = 2\<rparr>" and r = ?r and a = 0]
  have "ForNode_ImplTask 0 ?b 3 for_flow =
      (for_flow\<lparr>data := \<lparr>Name = [], Age = 2\<rparr>,
                 trace := trace for_flow
                   @ concat (replicate 1 (map (Task 0) [0..<length (Functors ?b)]))
                   @ map (Task 0) [0..<Suc (length [])]\<rparr>, Some ?r)"
    using second by (simp add: b d fails_second_time_def failing_def Let_def)
  moreover have "ForNode_ImplTask 0 ?b 0 for_flow = (for_flow, Some (result for_flow))"
    using for_node_iterations [THEN conjunct1, of 0 0 ?b for_flow] by simp
  ultimately show ?thesis by (simp add: b d)
qed

section \<open>The parallel node\<close>








lemma ParallelNode_ImplTask_collect:
  "snd (ParallelNode_ImplTask order a b s) =
     ParallelNode_collect (Some (result s)) (snd (run_tasks a (Functors b) order (data s, trace s)))"
  by (simp add: ParallelNode_ImplTask_def split: prod.splits)

section \<open>The parallel node when nothing fails\<close>





lemma trace_write_back [simp]: "trace (write_back r s) = trace s"
  by (simp add: write_back_def split: option.splits)




section \<open>Conditional nodes\<close>

text \<open>The part of \<open>IfNode.ImplTask\<close> and \<open>ElseIfNode.ImplTask\<close> after the nil test is the
  same; so is what follows from it.\<close>

lemma cond_ImplTask_eq:
  "ImplTask order a (ElseIfNode b c) s = ImplTask order a (IfNode b c) s"
  by (simp add: IfNode_ImplTask_def ElseIfNode_ImplTask_def)

lemma If_ImplTask_pass:
  assumes c: "c (data s) = (d0, holds)"
      and ok: "holds \<longrightarrow> (\<forall>x \<in> set (results_in_order (Functors b) d0). nil_or_ok x)"
  shows "IfNode_ImplTask a b (Some c) s =
           (case mark_skipped (Next b) (nodes s) of
              None \<Rightarrow> None
            | Some ns \<Rightarrow>
                Some (s\<lparr>data := (if holds then ctx_after (Functors b) d0 else d0),
                        nodes := ns,
                        trace := trace s @ Cond a #
                                 (if holds then map (Task a) [0..<length (Functors b)] else [])\<rparr>,
                      Some (result s)))"
proof (cases holds)
  case True
  with ok have "run_functors a 0 (Functors b) (d0, trace s @ [Cond a]) =
      ((ctx_after (Functors b) d0, (trace s @ [Cond a]) @ map (Task a) [0..<0 + length (Functors b)]),
       None)"
    by (intro run_functors_pass) simp
  with c True show ?thesis
    by (simp add: IfNode_ImplTask_def)
next
  case False
  with c show ?thesis
    by (simp add: IfNode_ImplTask_def)
qed

lemma If_ImplTask_fail:
  assumes c: "c (data s) = (d0, True)"
      and fs: "Functors b = pre @ f # post"
      and ok: "\<forall>x \<in> set (results_in_order pre d0). nil_or_ok x"
      and f: "f (ctx_after pre d0) = (d', Some r)" and r: "failing r"
  shows "IfNode_ImplTask a b (Some c) s =
           Some (s\<lparr>data := d', trace := trace s @ Cond a # map (Task a) [0..<Suc (length pre)]\<rparr>,
                 Some r)"
proof -
  have "run_functors a 0 (pre @ f # post) (d0, trace s @ [Cond a]) =
      ((d', (trace s @ [Cond a]) @ map (Task a) [0..<Suc (0 + length pre)]), Some r)"
    using ok f r by (rule run_functors_first_failure)
  with c fs show ?thesis
    by (simp add: IfNode_ImplTask_def)
qed

text \<open>
  Claim C2, amended. Take an \<open>If\<close> or \<open>ElseIf\<close> node with a condition. When the
  condition is false, or it is true and no closure of the branch returns a failing
  result, then once \<open>ImplTask\<close> has returned, every else node met along the \<open>Next\<close>
  links, up to the first node of another type, has its skip flag set, and the cell's
  own value is returned; on a store linked as the builder links it \<open>ImplTask\<close> does
  return. When a closure of the taken branch returns a failing result, \<open>ImplTask\<close>
  returns that result at once and the nodes are left as they were.
\<close>

theorem if_node_marks_else_chain:
  assumes n: "n = IfNode b (Some c) \<or> n = ElseIfNode b (Some c)"
      and c: "c (data s) = (d0, holds)"
  shows "((holds \<longrightarrow> (\<forall>x \<in> set (results_in_order (Functors b) d0). nil_or_ok x))
          \<and> ImplTask order a n s = Some (s', r)
          \<longrightarrow> r = Some (result s) \<and> same_shape (nodes s) (nodes s')
              \<and> (\<forall>j. else_chain (nodes s) (Next b) j \<longrightarrow> ShouldSkip (base (nodes s' ! j))))
       \<and> ((holds \<longrightarrow> (\<forall>x \<in> set (results_in_order (Functors b) d0). nil_or_ok x))
          \<and> linked (nodes s) \<and> a < length (nodes s) \<and> nodes s ! a = n
          \<longrightarrow> (\<exists>s2 r2. ImplTask order a n s = Some (s2, r2)))
       \<and> (\<forall>pre f post d' x.
            holds \<and> Functors b = pre @ f # post
            \<and> (\<forall>y \<in> set (results_in_order pre d0). nil_or_ok y)
            \<and> f (ctx_after pre d0) = (d', Some x) \<and> failing x
            \<longrightarrow> ImplTask order a n s =
                  Some (s\<lparr>data := d',
                          trace := trace s @ Cond a # map (Task a) [0..<Suc (length pre)]\<rparr>,
                        Some x))"
proof -
  from n have it: "ImplTask order a n s = IfNode_ImplTask a b (Some c) s"
    by (auto simp: IfNode_ImplTask_def ElseIfNode_ImplTask_def)
  from n have b: "base n = b" by auto
  show ?thesis
  proof (intro conjI allI impI)
    assume h: "(holds \<longrightarrow> (\<forall>x \<in> set (results_in_order (Functors b) d0). nil_or_ok x))
          \<and> ImplTask order a n s = Some (s', r)"
    then have ok: "holds \<longrightarrow> (\<forall>x \<in> set (results_in_order (Functors b) d0). nil_or_ok x)"
      and run: "IfNode_ImplTask a b (Some c) s = Some (s', r)"
      by (simp_all add: it)
    from run If_ImplTask_pass [where c = c and s = s and b = b and a = a, OF c ok]
    obtain ns where ms: "mark_skipped (Next b) (nodes s) = Some ns"
      and s': "nodes s' = ns" and r: "r = Some (result s)"
      by (auto split: option.splits)
    from r show "r = Some (result s)" .
    from mark_skipped_keeps [OF ms] s' show "same_shape (nodes s) (nodes s')" by simp
    fix j assume "else_chain (nodes s) (Next b) j"
    with ms s' show "ShouldSkip (base (nodes s' ! j))"
      by (auto dest: mark_skipped_chain)
  next
    assume h: "(holds \<longrightarrow> (\<forall>x \<in> set (results_in_order (Functors b) d0). nil_or_ok x))
          \<and> linked (nodes s) \<and> a < length (nodes s) \<and> nodes s ! a = n"
    then have ok: "holds \<longrightarrow> (\<forall>x \<in> set (results_in_order (Functors b) d0). nil_or_ok x)"
      and l: "linked (nodes s)" and a: "a < length (nodes s)" and na: "nodes s ! a = n"
      by simp_all
    from mark_skipped_linked_returns [OF l a] na b
    obtain ns where "mark_skipped (Next b) (nodes s) = Some ns"
      by (auto simp: GetNext_def)
    with If_ImplTask_pass [where c = c and s = s and b = b and a = a, OF c ok] it
    show "\<exists>s2 r2. ImplTask order a n s = Some (s2, r2)"
      by simp
  next
    fix pre f post d' x
    assume h: "holds \<and> Functors b = pre @ f # post
            \<and> (\<forall>y \<in> set (results_in_order pre d0). nil_or_ok y)
            \<and> f (ctx_after pre d0) = (d', Some x) \<and> failing x"
    with c have "c (data s) = (d0, True)" by simp
    from If_ImplTask_fail [where c = c and s = s and b = b and a = a and pre = pre and f = f
        and post = post and d' = d' and r = x, OF this] h it
    show "ImplTask order a n s =
                  Some (s\<lparr>data := d',
                          trace := trace s @ Cond a # map (Task a) [0..<Suc (length pre)]\<rparr>,
                        Some x)"
      by simp
  qed
qed

lemma GetNext_SetNext [simp]: "GetNext (SetNext x n) = x"
  by (simp add: GetNext_def SetNext_def)

lemma linked_append_node:
  assumes l: "linked (nodes c)" and n: "GetNext n = None"
  shows "linked (nodes (append_node n c))"
proof (cases "nodes c = []")
  case True
  with n show ?thesis
    by (simp add: append_node_def linked_def)
next
  case False
  let ?ns = "nodes c"
  let ?k = "length ?ns - 1"
  let ?ms = "?ns[?k := SetNext (Some (length ?ns)) (?ns ! ?k)]"
  from False have k: "?k < length ?ns" "Suc ?k = length ?ns" by simp_all
  from False have nodes: "nodes (append_node n c) = ?ms @ [n]"
    by (simp add: append_node_def Let_def)
  have "\<forall>i < length (?ms @ [n]).
          GetNext ((?ms @ [n]) ! i) = (if Suc i < length (?ms @ [n]) then Some (Suc i) else None)"
  proof (intro allI impI)
    fix i assume "i < length (?ms @ [n])"
    then consider "i < ?k" | "i = ?k" | "i = length ?ns" using k by fastforce
    then show "GetNext ((?ms @ [n]) ! i) =
                 (if Suc i < length (?ms @ [n]) then Some (Suc i) else None)"
    proof cases
      case 1
      with k have "(?ms @ [n]) ! i = ?ns ! i" by (simp add: nth_append)
      with 1 k l show ?thesis by (simp add: linked_def)
    next
      case 2
      with k have "(?ms @ [n]) ! i = SetNext (Some (length ?ns)) (?ns ! ?k)"
        by (simp add: nth_append)
      with 2 k show ?thesis by simp
    next
      case 3
      then have "(?ms @ [n]) ! i = n" by (simp add: nth_append)
      with 3 n show ?thesis by simp
    qed
  qed
  with nodes show ?thesis by (simp add: linked_def)
qed

lemma linked_NewFlowEngine: "linked (nodes NewFlowEngine)"
  by (simp add: linked_def NewFlowEngine_def)

lemma GetNext_New [simp]:
  "GetNext (NewNormalNode fs) = None" "GetNext (NewIfNode cnd fs) = None"
  "GetNext (NewElseIfNode cnd fs) = None" "GetNext (NewElseNode fs) = None"
  "GetNext (NewForNode t fs) = None" "GetNext (NewParallelNode fs) = None"
  by (simp_all add: GetNext_def NewNormalNode_def NewIfNode_def NewElseIfNode_def NewElseNode_def
        NewForNode_def NewParallelNode_def NewBasicFlowNode_def)

lemma else_if_flow_append:
  "else_if_flow =
     append_node (NewElseNode [Func4])
       (append_node (NewElseIfNode (Some CondTrue) [Func3])
         (append_node (NewIfNode (Some CondFalse) [Func2])
           (append_node (NewNormalNode [Func1]) NewFlowEngine)))"
  by (simp add: else_if_flow_def FlowEngine_Do_def FlowEngine_If_def ElseFlowEngine_ElseIf_def
        ElseFlowEngine_Else_def NewElseFlowEngine_def append_node_def Let_def)

lemma linked_else_if_flow: "linked (nodes else_if_flow)"
  unfolding else_if_flow_append
  by (intro linked_append_node linked_NewFlowEngine) simp_all

lemma else_if_flow_nodes:
  "nodes else_if_flow =
     [ElseNode \<lparr>Functors = [Func1], NodeType = NormalNodeType, Next = Some 1, ShouldSkip = False,
                BeginLogger = None, EndLogger = None, Note = []\<rparr>,
      IfNode \<lparr>Functors = [Func2], NodeType = IfNodeType, Next = Some 2, ShouldSkip = False,
              BeginLogger = None, EndLogger = None, Note = []\<rparr> (Some CondFalse),
      ElseIfNode \<lparr>Functors = [Func3], NodeType = ElseIfNodeType, Next = Some 3,
                  ShouldSkip = False, BeginLogger = None, EndLogger = None, Note = []\<rparr>
        (Some CondTrue),
      ElseNode \<lparr>Functors = [Func4], NodeType = ElseNodeType, Next = None, ShouldSkip = False,
                BeginLogger = None, EndLogger = None, Note = []\<rparr>]"
  by (simp add: else_if_flow_def builder_defs)

theorem if_node_marks_else_chain_witness:
  "\<exists>s' r. ImplTask [] 1 (nodes else_if_flow ! 1) else_if_flow = Some (s', r)
      \<and> ShouldSkip (base (nodes s' ! 2)) \<and> ShouldSkip (base (nodes s' ! 3))"
proof -
  let ?b = "\<lparr>Functors = [Func2], NodeType = IfNodeType, Next = Some 2, ShouldSkip = False,
              BeginLogger = None, EndLogger = None, Note = []\<rparr>"
  let ?n = "nodes else_if_flow ! 1"
  have n: "?n = IfNode ?b (Some CondFalse) \<or> ?n = ElseIfNode ?b (Some CondFalse)"
    by (simp add: else_if_flow_nodes)
  have c: "CondFalse (data else_if_flow) = (data else_if_flow, False)"
    by (simp add: CondFalse_def)
  note th = if_node_marks_else_chain [OF n c]
  have "\<exists>s2 r2. ImplTask [] 1 ?n else_if_flow = Some (s2, r2)"
    using th [THEN conjunct2, THEN conjunct1, of 1] linked_else_if_flow
    by (simp add: else_if_flow_nodes)
  then obtain s' r where run: "ImplTask [] 1 ?n else_if_flow = Some (s', r)"
    by blast
  have c3: "else_chain (nodes else_if_flow) (Some 3) 3"
    by (rule else_chain.here) (simp_all add: else_if_flow_nodes is_else_def GetNodeType_def)
  have "else_chain (nodes else_if_flow) (GetNext (nodes else_if_flow ! 2)) 3"
    using c3 by (simp add: else_if_flow_nodes GetNext_def)
  then have c23: "else_chain (nodes else_if_flow) (Some 2) 3"
    by (intro else_chain.later) (simp_all add: else_if_flow_nodes is_else_def GetNodeType_def)
  have c22: "else_chain (nodes else_if_flow) (Some 2) 2"
    by (rule else_chain.here) (simp_all add: else_if_flow_nodes is_else_def GetNodeType_def)
  from th [THEN conjunct1, of "[]" 1 s' r] run
  have "\<forall>j. else_chain (nodes else_if_flow) (Next ?b) j \<longrightarrow> ShouldSkip (base (nodes s' ! j))"
    by simp
  with c22 c23 have "ShouldSkip (base (nodes s' ! 2))" "ShouldSkip (base (nodes s' ! 3))"
    by simp_all
  with run show ?thesis by blast
qed

text \<open>
  The claim as it stands fails for \<open>If(CondTrue, Func8).Else(Func4)\<close>: \<open>Func8\<close> fails,
  \<open>ImplTask\<close> returns its result, and the skip flag of the \<open>Else\<close> node is not set.
\<close>

theorem if_node_failed_branch_counterexample:
  "is_else (nodes if_fail_flow ! 1) \<and> GetNext (nodes if_fail_flow ! 0) = Some 1
   \<and> \<not> gated (nodes if_fail_flow ! 0) if_fail_flow
   \<and> (\<exists>s' r. ImplTask [] 0 (nodes if_fail_flow ! 0) if_fail_flow = Some (s', r)
          \<and> \<not> ShouldSkip (base (nodes s' ! 1)))"
  by (simp add: if_fail_flow_def builder_defs run_defs Func8_def CondTrue_def)

text \<open>
  Claim C1, at its scenario \<open>Do(Func1).If(CondFalse, Func2).ElseIf(CondTrue, Func3)
  .Else(Func4).Wait()\<close> on a fresh engine. What the code does there: \<open>Func1\<close> is
  called, then \<open>CondFalse\<close>, and nothing else. The \<open>If\<close> node, whose condition is
  false, sets the skip flags of the \<open>ElseIf\<close> and the \<open>Else\<close> node, so \<open>Func3\<close> is not
  called, and no branch of the chain runs although \<open>CondTrue\<close> holds and an \<open>Else\<close>
  is there.
\<close>

theorem else_if_scenario_runs_no_branch:
  "\<exists>s r. FlowEngine_Wait (\<lambda>a. []) else_if_flow = Some (s, r)
      \<and> trace s = [Task 0 0, Cond 1] \<and> data s = \<lparr>Name = [], Age = 1\<rparr>
      \<and> ShouldSkip (base (nodes s ! 2)) \<and> ShouldSkip (base (nodes s ! 3))"
  by (simp add: FlowEngine_Wait_def else_if_flow_nodes else_if_flow_def builder_defs run_defs
        callbacks_def Func1_def Func2_def CondFalse_def CondTrue_def)

end
